theory Spec2Isabelle
  imports Complex_Main "HOL-Library.Sublist" "HOL-Library.Char_ord" "HOL-Library.List_Lexorder"
begin

section \<open>Strings of code points\<close>

text \<open>
  A Python \<open>str\<close> is a sequence of Unicode code points, and every literal the program
  looks for is written in CJK ideographs, which do not fit the 8-bit \<open>char\<close> of HOL.
  A text is therefore a list of code points; \<open>len\<close> is \<open>length\<close>.
  Python floats are idealised as real numbers throughout.
\<close>

type_synonym pystr = "nat list"

text \<open>\<open>p in t\<close> for two strings: \<open>p\<close> occurs in \<open>t\<close> as a contiguous block.\<close>

fun substr_in :: "pystr \<Rightarrow> pystr \<Rightarrow> bool" where
  "substr_in p [] = (p = [])"
| "substr_in p (c # cs) = (prefix p (c # cs) \<or> substr_in p cs)"

text \<open>
  \<open>str.isspace\<close> of one character, which is also what \<open>\s\<close> matches in a \<open>str\<close> pattern
  and what \<open>str.strip()\<close> removes: U+0009..U+000D, U+001C..U+0020, U+0085, U+00A0, U+1680,
  U+2000..U+200A, U+2028, U+2029, U+202F, U+205F, U+3000.
\<close>

definition isspace :: "nat \<Rightarrow> bool" where
  "isspace c \<longleftrightarrow>
     (9 \<le> c \<and> c \<le> 13) \<or> (28 \<le> c \<and> c \<le> 32) \<or> c = 133 \<or> c = 160 \<or> c = 5760 \<or>
     (8192 \<le> c \<and> c \<le> 8202) \<or> c = 8232 \<or> c = 8233 \<or> c = 8239 \<or> c = 8287 \<or> c = 12288"

definition strip :: "pystr \<Rightarrow> pystr" where
  "strip s = rev (dropWhile isspace (rev (dropWhile isspace s)))"

text \<open>\<open>sep.join(tokens)\<close> with the separator a single space (U+0020).\<close>

fun join_space :: "pystr list \<Rightarrow> pystr" where
  "join_space [] = []"
| "join_space [t] = t"
| "join_space (t # ts) = t @ [32] @ join_space ts"

section \<open>The literals of the program\<close>

text \<open>Absurd phrases, in the order of \<open>absurd_content_detector\<close>.\<close>

definition moon_explodes :: pystr where "moon_explodes = [26376, 29699, 29190, 28856]"
definition sun_vanishes :: pystr where "sun_vanishes = [22826, 38451, 28040, 22833]"
definition earth_stops :: pystr where "earth_stops = [22320, 29699, 20572, 36716]"
definition live_forever :: pystr where "live_forever = [38271, 29983, 19981, 32769]"
definition time_travel :: pystr where "time_travel = [31359, 36234, 21476, 20195]"

text \<open>Authority sources: Xinhua (U+65B0 U+534E U+793E), People's Daily, "official".\<close>

definition xinhua :: pystr where "xinhua = [26032, 21326, 31038]"
definition peoples_daily :: pystr where "peoples_daily = [20154, 27665, 26085, 25253]"
definition official :: pystr where "official = [23448, 26041]"

text \<open>Urgency and exaggeration markers; the last one is the ASCII text \<open>100%\<close>.\<close>

definition must_read :: pystr where "must_read = [24517, 30475]"
definition urgent_word :: pystr where "urgent_word = [32039, 24613]"
definition read_quickly :: pystr where "read_quickly = [36895, 30475]"
definition shocking :: pystr where "shocking = [38663, 24778]"
definition greatest :: pystr where "greatest = [26368, 29275]"
definition hundred_percent :: pystr where "hundred_percent = [49, 48, 48, 37]"

text \<open>The ideographic full stop U+3002 counted by \<open>extract_text_features\<close>.\<close>

definition full_stop :: nat where "full_stop = 12290"

text \<open>The prefix of the reason built by the detector: seven ideographs, a colon, a space.\<close>

definition reason_prefix :: pystr where
  "reason_prefix = [26816, 27979, 21040, 33618, 35884, 20869, 23481, 58, 32]"

section \<open>Heuristic features (extract_text_features)\<close>

text \<open>
  The function returns a dict whose values are two ints and four floats; the dict is an
  association list in insertion order, its keys ASCII strings.
\<close>

datatype pyval = PyInt int | PyFloat real

fun float :: "pyval \<Rightarrow> real" where
  "float (PyInt i) = real_of_int i"
| "float (PyFloat r) = r"

definition extract_absurd_phrases :: "pystr list" where
  "extract_absurd_phrases = [moon_explodes, sun_vanishes, earth_stops, live_forever]"

definition extract_text_features :: "pystr \<Rightarrow> (string \<times> pyval) list" where
  "extract_text_features text =
    [(''length'', PyInt (int (length text))),
     (''sentences'', PyInt (int (count_list text full_stop) + 1)),
     (''reliable'', PyFloat (if substr_in xinhua text \<or> substr_in peoples_daily text
                                \<or> substr_in official text then 1 else 0)),
     (''is_absurd'', PyFloat (if list_ex (\<lambda>phrase. substr_in phrase text)
                                   extract_absurd_phrases then 1 else 0)),
     (''urgent'', PyFloat (if substr_in must_read text \<or> substr_in urgent_word text
                              \<or> substr_in read_quickly text then 1 else 0)),
     (''exaggeration'', PyFloat (if substr_in shocking text \<or> substr_in greatest text
                                    \<or> substr_in hundred_percent text then 1 else 0))]"

section \<open>The absurdity gate (absurd_content_detector)\<close>

definition absurd_phrases :: "pystr list" where
  "absurd_phrases = [moon_explodes, sun_vanishes, earth_stops, live_forever, time_travel]"

text \<open>The \<open>for\<close> loop over the phrases, returning at the first one found in the text.\<close>

fun detector_loop :: "pystr list \<Rightarrow> pystr \<Rightarrow> bool \<times> pystr" where
  "detector_loop [] text = (False, [])"
| "detector_loop (phrase # rest) text =
     (if substr_in phrase text then (True, reason_prefix @ phrase)
      else detector_loop rest text)"

definition absurd_content_detector :: "pystr \<Rightarrow> bool \<times> pystr" where
  "absurd_content_detector text = detector_loop absurd_phrases text"


section \<open>The normalizer (preprocess_text)\<close>

text \<open>
  The first \<open>re.sub\<close> replaces, by one space each, the characters outside
  U+4E00..U+9FA5, a..z, A..Z and 0..9; \<open>keep_char\<close> holds of the characters inside.
\<close>

definition keep_char :: "nat \<Rightarrow> bool" where
  "keep_char c \<longleftrightarrow>
     (19968 \<le> c \<and> c \<le> 40869) \<or> (97 \<le> c \<and> c \<le> 122) \<or> (65 \<le> c \<and> c \<le> 90) \<or>
     (48 \<le> c \<and> c \<le> 57)"

definition sub_non_word :: "pystr \<Rightarrow> pystr" where
  "sub_non_word text = map (\<lambda>c. if keep_char c then c else 32) text"

text \<open>The second \<open>re.sub\<close>: every maximal run of whitespace becomes one space.\<close>

function sub_spaces :: "pystr \<Rightarrow> pystr" where
  "sub_spaces [] = []"
| "sub_spaces (c # cs) =
     (if isspace c then 32 # sub_spaces (dropWhile isspace cs) else c # sub_spaces cs)"
  by pat_completeness auto
termination
  by (relation "measure length") (auto simp: length_dropWhile_le less_Suc_eq_le)

text \<open>
  \<open>str.lower\<close> is applied to the result of the two substitutions, which holds only
  ideographs of U+4E00..U+9FA5, ASCII letters, ASCII digits and spaces; on these it
  changes the letters A..Z and nothing else.
\<close>

definition lower_char :: "nat \<Rightarrow> nat" where
  "lower_char c = (if 65 \<le> c \<and> c \<le> 90 then c + 32 else c)"

definition lower :: "pystr \<Rightarrow> pystr" where
  "lower text = map lower_char text"

text \<open>The text handed to the tokenizer: both substitutions, \<open>lower\<close>, then \<open>strip\<close>.\<close>

definition clean_text :: "pystr \<Rightarrow> pystr" where
  "clean_text text = strip (lower (sub_spaces (sub_non_word text)))"

text \<open>
  \<open>jieba.cut\<close> is a third-party tokenizer; it is the parameter \<open>jieba_cut\<close>, from a string
  to its tokens.
\<close>

definition preprocess_text :: "(pystr \<Rightarrow> pystr list) \<Rightarrow> pystr \<Rightarrow> pystr" where
  "preprocess_text jieba_cut text =
     (if text = [] then [] else join_space (jieba_cut (clean_text text)))"

section \<open>The feature vector (generate_features)\<close>

text \<open>
  The loaded models: the vectorizer and the two methods of the classifier are external
  and may raise, which is the value \<open>None\<close>; \<open>tfidf\<close> stands for
  \<open>transform([s]).toarray()[0]\<close>, \<open>predict\<close> and \<open>predict_proba\<close> for row 0 of
  the classifier's answers (\<open>None\<close> also when the row does not unpack into two values).
\<close>

record models =
  tfidf :: "pystr \<Rightarrow> real list option"
  predict :: "real list \<Rightarrow> int option"
  predict_proba :: "real list \<Rightarrow> (real \<times> real) option"
  expected_dim :: nat

text \<open>
  \<open>[float(adv_features[key]) for key in sorted(adv_features)]\<close>; a missing key would
  raise inside the \<open>try\<close> block and is \<open>None\<close>.
\<close>

definition adv_vector :: "(string \<times> pyval) list \<Rightarrow> real list option" where
  "adv_vector adv_features =
     those (map (\<lambda>key. map_option float (map_of adv_features key))
                (sort (map fst adv_features)))"

definition zeros :: "nat \<Rightarrow> real list" where
  "zeros n = replicate n 0"

definition generate_features :: "(pystr \<Rightarrow> pystr list) \<Rightarrow> models \<Rightarrow> pystr \<Rightarrow> real list" where
  "generate_features jieba_cut models text =
     (let processed_text = preprocess_text jieba_cut text in
      case tfidf models processed_text of
        None \<Rightarrow> zeros (expected_dim models)
      | Some tfidf_vector \<Rightarrow>
          (case adv_vector (extract_text_features text) of
             None \<Rightarrow> zeros (expected_dim models)
           | Some adv \<Rightarrow> take (expected_dim models) (tfidf_vector @ adv)))"

section \<open>Confidence (calculate_confidence)\<close>

definition calculate_confidence :: "real \<times> real \<Rightarrow> pystr \<Rightarrow> real \<times> real" where
  "calculate_confidence probabilities text =
     (case probabilities of (real_prob, fake_prob) \<Rightarrow>
        (if substr_in xinhua text \<or> substr_in peoples_daily text
         then (min (real_prob * 1.7) 0.97, fake_prob)
         else (real_prob, fake_prob)))"

section \<open>The analysis run of main_application\<close>

text \<open>
  What one press of the button shows: a warning for blank input, the verdict of the
  absurdity gate, the verdict of the classifier, or the failure report of the
  \<open>except\<close> branch. A verdict of the gate carries the reason, a verdict of the classifier
  does not.
\<close>

datatype verdict = Fake real "pystr option" | Real real

datatype error = EmptyInputError | InferenceError | ZeroTotal

text \<open>
  Lines 170 and 171: both probabilities are divided by their sum. With a sum of zero
  the division has no real value (numpy gives nan or inf); that case is \<open>None\<close>.
\<close>

definition renormalize :: "real \<times> real \<Rightarrow> (real \<times> real) option" where
  "renormalize p =
     (case p of (real_prob, fake_prob) \<Rightarrow>
        (let total = real_prob + fake_prob in
         if total = 0 then None else Some (real_prob / total, fake_prob / total)))"

definition main_application :: "(pystr \<Rightarrow> pystr list) \<Rightarrow> models \<Rightarrow> pystr \<Rightarrow> error + verdict" where
  "main_application jieba_cut models news_text =
     (if strip news_text = [] then Inl EmptyInputError
      else case absurd_content_detector news_text of
        (True, reason) \<Rightarrow> Inr (Fake 1 (Some reason))
      | (False, _) \<Rightarrow>
          (let features = generate_features jieba_cut models news_text in
           case predict models features of
             None \<Rightarrow> Inl InferenceError
           | Some prediction \<Rightarrow>
               (case predict_proba models features of
                  None \<Rightarrow> Inl InferenceError
                | Some probabilities \<Rightarrow>
                    (case renormalize (calculate_confidence probabilities news_text) of
                       None \<Rightarrow> Inl ZeroTotal
                     | Some (real_prob, fake_prob) \<Rightarrow>
                         (if prediction = 1 then Inr (Fake fake_prob None)
                          else Inr (Real real_prob))))))"

section \<open>Probability pairs\<close>

text \<open>
  What \<open>predict_proba\<close> of a two-class classifier returns for one row: two
  probabilities that sum to one.
\<close>

definition prob_pair :: "real \<times> real \<Rightarrow> bool" where
  "prob_pair p \<longleftrightarrow> 0 \<le> fst p \<and> fst p \<le> 1 \<and> 0 \<le> snd p \<and> snd p \<le> 1 \<and> fst p + snd p = 1"

section \<open>Sample collaborators\<close>

text \<open>
  Concrete tokenizers and models, used where a statement is evaluated on an input.
  \<open>each_char\<close> returns every character as a token of its own, whitespace included;
  \<open>runs_and_spaces\<close> returns every space as a token of its own and every maximal
  run without a space as one token.
\<close>

definition each_char :: "pystr \<Rightarrow> pystr list" where
  "each_char s = map (\<lambda>c. [c]) s"

fun runs_and_spaces :: "pystr \<Rightarrow> pystr list" where
  "runs_and_spaces [] = []"
| "runs_and_spaces (c # cs) =
     (if c = 32 then [32] # runs_and_spaces cs
      else (case runs_and_spaces cs of
              [] \<Rightarrow> [[c]]
            | t # ts \<Rightarrow> (if t = [32] then [c] # t # ts else (c # t) # ts)))"

text \<open>A vectorizer and a classifier that raise on every input.\<close>

definition failing_models :: models where
  "failing_models = \<lparr>tfidf = (\<lambda>s. None), predict = (\<lambda>v. None), predict_proba = (\<lambda>v. None),
     expected_dim = 204\<rparr>"

text \<open>A vectorizer with three terms, so that three values and six heuristics are nine.\<close>

definition three_term_models :: models where
  "three_term_models = \<lparr>tfidf = (\<lambda>s. Some [0, 0, 0]), predict = (\<lambda>v. Some 0),
     predict_proba = (\<lambda>v. Some (1 / 2, 1 / 2)), expected_dim = 204\<rparr>"

text \<open>A vectorizer that raises, with a classifier that answers label 0 and an even pair.\<close>

definition xinhua_models :: models where
  "xinhua_models = \<lparr>tfidf = (\<lambda>s. None), predict = (\<lambda>v. Some 0),
     predict_proba = (\<lambda>v. Some (1 / 2, 1 / 2)), expected_dim = 204\<rparr>"

section \<open>Shapes of a cleaned text\<close>

text \<open>
  Three properties that the text handed to the tokenizer has: no two neighbouring
  whitespace characters, only lower-case kept characters and spaces, and no whitespace
  at either end.
\<close>

fun no_double :: "pystr \<Rightarrow> bool" where
  "no_double [] = True"
| "no_double [c] = True"
| "no_double (c # d # cs) = (\<not> (isspace c \<and> isspace d) \<and> no_double (d # cs))"

definition tidy_char :: "nat \<Rightarrow> bool" where
  "tidy_char c \<longleftrightarrow> (keep_char c \<and> \<not> (65 \<le> c \<and> c \<le> 90)) \<or> c = 32"

definition cleaned :: "pystr \<Rightarrow> bool" where
  "cleaned s \<longleftrightarrow>
     (\<forall>c \<in> set s. tidy_char c) \<and> no_double s \<and>
     (s = [] \<or> (\<not> isspace (hd s) \<and> \<not> isspace (last s)))"

section \<open>Facts about strings\<close>

lemmas phrase_defs =
  moon_explodes_def sun_vanishes_def earth_stops_def live_forever_def time_travel_def
  xinhua_def peoples_daily_def official_def must_read_def urgent_word_def read_quickly_def
  shocking_def greatest_def hundred_percent_def

lemma substr_in_iff: "substr_in p t \<longleftrightarrow> (\<exists>u v. t = u @ p @ v)"
proof (induction t)
  case Nil
  then show ?case by auto
next
  case (Cons c cs)
  show ?case
  proof
    assume "substr_in p (c # cs)"
    then consider "prefix p (c # cs)" | "substr_in p cs" by auto
    then show "\<exists>u v. c # cs = u @ p @ v"
    proof cases
      case 1
      then obtain v where "c # cs = p @ v" by (auto simp: prefix_def)
      then have "c # cs = [] @ p @ v" by simp
      then show ?thesis by blast
    next
      case 2
      then obtain u v where "cs = u @ p @ v" using Cons.IH by blast
      then have "c # cs = (c # u) @ p @ v" by simp
      then show ?thesis by blast
    qed
  next
    assume "\<exists>u v. c # cs = u @ p @ v"
    then obtain u v where uv: "c # cs = u @ p @ v" by blast
    show "substr_in p (c # cs)"
    proof (cases u)
      case Nil
      then have "prefix p (c # cs)" using uv by (simp add: prefix_def)
      then show ?thesis by simp
    next
      case (Cons a u')
      then have "cs = u' @ p @ v" using uv by simp
      then have "substr_in p cs" using Cons.IH by blast
      then show ?thesis by simp
    qed
  qed
qed

lemma substr_in_set: "substr_in p t \<Longrightarrow> set p \<subseteq> set t"
  by (auto simp: substr_in_iff)

lemma strip_Nil_iff: "strip s = [] \<longleftrightarrow> (\<forall>c \<in> set s. isspace c)"
proof -
  have "strip s = [] \<longleftrightarrow> (\<forall>c \<in> set (dropWhile isspace s). isspace c)"
    by (simp add: strip_def dropWhile_eq_Nil_conv)
  also have "\<dots> \<longleftrightarrow> (\<forall>c \<in> set s. isspace c)"
  proof
    assume a: "\<forall>c \<in> set (dropWhile isspace s). isspace c"
    have "dropWhile isspace s = []"
    proof (rule ccontr)
      assume ne: "dropWhile isspace s \<noteq> []"
      then have "\<not> isspace (hd (dropWhile isspace s))" by (rule hd_dropWhile)
      moreover have "hd (dropWhile isspace s) \<in> set (dropWhile isspace s)"
        using ne by simp
      ultimately show False using a by blast
    qed
    then show "\<forall>c \<in> set s. isspace c" by (simp add: dropWhile_eq_Nil_conv)
  next
    assume "\<forall>c \<in> set s. isspace c"
    then show "\<forall>c \<in> set (dropWhile isspace s). isspace c"
      using set_dropWhileD by fastforce
  qed
  finally show ?thesis .
qed

lemma strip_infix: "\<exists>a b. s = a @ strip s @ b"
proof -
  let ?d = "dropWhile isspace s"
  have 1: "s = takeWhile isspace s @ ?d" by simp
  have "rev (takeWhile isspace (rev ?d) @ dropWhile isspace (rev ?d)) = rev (rev ?d)"
    by (simp only: takeWhile_dropWhile_id)
  then have "rev (dropWhile isspace (rev ?d)) @ rev (takeWhile isspace (rev ?d)) = ?d"
    by (simp only: rev_append rev_rev_ident)
  then have 2: "?d = strip s @ rev (takeWhile isspace (rev ?d))"
    by (simp only: strip_def)
  have "s = takeWhile isspace s @ strip s @ rev (takeWhile isspace (rev ?d))"
    using 1 2 by metis
  then show ?thesis by blast
qed

lemma set_strip: "set (strip s) \<subseteq> set s"
proof -
  obtain a b where "s = a @ strip s @ b" using strip_infix by blast
  then have "set s = set a \<union> set (strip s) \<union> set b" by (metis set_append Un_assoc)
  then show ?thesis by blast
qed

lemma strip_ends: "strip s = [] \<or> (\<not> isspace (hd (strip s)) \<and> \<not> isspace (last (strip s)))"
proof (cases "strip s = []")
  case True
  then show ?thesis by simp
next
  case False
  let ?d = "dropWhile isspace s"
  let ?e = "dropWhile isspace (rev ?d)"
  have e: "?e \<noteq> []" using False by (simp add: strip_def)
  have st: "strip s = rev ?e" by (simp add: strip_def)
  have "\<not> isspace (hd ?e)" using e by (rule hd_dropWhile)
  then have l: "\<not> isspace (last (strip s))" using e by (simp add: st last_rev)
  have d: "?d \<noteq> []"
  proof
    assume "?d = []"
    then have "?e = []" by (simp only: rev.simps dropWhile.simps)
    with e show False by blast
  qed
  then have hd_d: "\<not> isspace (hd ?d)" by (rule hd_dropWhile)
  have "rev ?d = takeWhile isspace (rev ?d) @ ?e" by simp
  then have "last (rev ?d) = last ?e" using e by (metis last_appendR)
  then have "hd ?d = last ?e" using d by (simp add: last_rev)
  then have "hd (strip s) = hd ?d" using e by (simp add: st hd_rev)
  then show ?thesis using l hd_d by simp
qed

lemma strip_id: "s = [] \<or> (\<not> isspace (hd s) \<and> \<not> isspace (last s)) \<Longrightarrow> strip s = s"
proof (cases "s = []")
  case True
  then show ?thesis by (simp add: strip_def)
next
  case False
  assume "s = [] \<or> (\<not> isspace (hd s) \<and> \<not> isspace (last s))"
  then have h: "\<not> isspace (hd s)" and l: "\<not> isspace (last s)" using False by simp_all
  have 1: "dropWhile isspace s = s" using h False by (cases s) auto
  have "rev s \<noteq> []" using False by simp
  moreover have "\<not> isspace (hd (rev s))" using l False by (simp add: hd_rev)
  ultimately have 2: "dropWhile isspace (rev s) = rev s" by (cases "rev s") auto
  show ?thesis by (simp add: strip_def 1 2)
qed

section \<open>The absurdity gate decides first\<close>

lemma absurd_phrase_visible:
  "phrase \<in> set absurd_phrases \<Longrightarrow> \<exists>c \<in> set phrase. \<not> isspace c"
  by (auto simp: absurd_phrases_def phrase_defs isspace_def)

lemma absurd_text_not_blank:
  assumes "phrase \<in> set absurd_phrases" and "substr_in phrase text"
  shows "strip text \<noteq> []"
proof -
  obtain c where "c \<in> set phrase" and "\<not> isspace c"
    using absurd_phrase_visible [OF assms(1)] by blast
  then have "c \<in> set text" using substr_in_set [OF assms(2)] by blast
  with \<open>\<not> isspace c\<close> show ?thesis by (auto simp: strip_Nil_iff)
qed

lemma detector_loop_find:
  "detector_loop ps text =
     (case find (\<lambda>p. substr_in p text) ps of
        None \<Rightarrow> (False, [])
      | Some phrase \<Rightarrow> (True, reason_prefix @ phrase))"
  by (induction ps) auto

lemma detector_fires_iff:
  "fst (absurd_content_detector text) \<longleftrightarrow> (\<exists>phrase \<in> set absurd_phrases. substr_in phrase text)"
  by (auto simp: absurd_content_detector_def detector_loop_find find_None_iff find_Some_iff
           split: option.splits)

text \<open>
  C1. A text that contains one of the five phrases of the gate is reported as fake with
  confidence 1, and the reason is the fixed prefix followed by the phrase of least index
  that occurs in the text. The result is the same for every tokenizer, vectorizer and
  classifier, so none of them, and no confidence calculation, takes part in it.
\<close>

theorem absurd_text_is_fake:
  assumes "\<exists>phrase \<in> set absurd_phrases. substr_in phrase rawText"
  shows "\<exists>i < length absurd_phrases.
           substr_in (absurd_phrases ! i) rawText \<and>
           (\<forall>j < i. \<not> substr_in (absurd_phrases ! j) rawText) \<and>
           (\<forall>jieba_cut models. main_application jieba_cut models rawText =
              Inr (Fake 1 (Some (reason_prefix @ absurd_phrases ! i))))"
proof -
  from assms obtain q where q: "q \<in> set absurd_phrases" "substr_in q rawText" by blast
  then have "find (\<lambda>p. substr_in p rawText) absurd_phrases \<noteq> None"
    by (auto simp: find_None_iff)
  then obtain phrase where f: "find (\<lambda>p. substr_in p rawText) absurd_phrases = Some phrase"
    by blast
  then obtain i where i: "i < length absurd_phrases" "substr_in (absurd_phrases ! i) rawText"
    "phrase = absurd_phrases ! i" "\<forall>j < i. \<not> substr_in (absurd_phrases ! j) rawText"
    unfolding find_Some_iff by blast
  have nb: "strip rawText \<noteq> []" using absurd_text_not_blank q by blast
  have "absurd_content_detector rawText = (True, reason_prefix @ absurd_phrases ! i)"
    using f i(3) by (simp add: absurd_content_detector_def detector_loop_find)
  then have "main_application jieba_cut models rawText =
      Inr (Fake 1 (Some (reason_prefix @ absurd_phrases ! i)))" for jieba_cut models
    using nb by (simp add: main_application_def)
  with i show ?thesis by blast
qed

text \<open>
  An instance: a text with the second and the third phrase is reported with the second,
  by a run whose vectorizer and classifier would raise if they were called.
\<close>

lemma sun_vanishes_found: "substr_in sun_vanishes (sun_vanishes @ earth_stops)"
  by (simp add: phrase_defs)

lemma moon_explodes_absent: "\<not> substr_in moon_explodes (sun_vanishes @ earth_stops)"
  by (simp add: phrase_defs)

theorem absurd_text_is_fake_witness:
  "(\<exists>phrase \<in> set absurd_phrases. substr_in phrase (sun_vanishes @ earth_stops)) \<and>
   main_application each_char failing_models (sun_vanishes @ earth_stops) =
     Inr (Fake 1 (Some (reason_prefix @ sun_vanishes)))"
proof -
  have h: "\<exists>phrase \<in> set absurd_phrases. substr_in phrase (sun_vanishes @ earth_stops)"
    using sun_vanishes_found by (auto simp: absurd_phrases_def)
  from absurd_text_is_fake [OF h] obtain i where i: "i < length absurd_phrases"
    "substr_in (absurd_phrases ! i) (sun_vanishes @ earth_stops)"
    "\<forall>j < i. \<not> substr_in (absurd_phrases ! j) (sun_vanishes @ earth_stops)"
    "main_application each_char failing_models (sun_vanishes @ earth_stops) =
       Inr (Fake 1 (Some (reason_prefix @ absurd_phrases ! i)))"
    by blast
  have "i = 1"
  proof (rule ccontr)
    assume "i \<noteq> 1"
    then consider "i = 0" | "1 < i" by linarith
    then show False
    proof cases
      case 1
      then show False using i(2) moon_explodes_absent by (simp add: absurd_phrases_def)
    next
      case 2
      then have "\<not> substr_in (absurd_phrases ! 1) (sun_vanishes @ earth_stops)"
        using i(3) by blast
      then show False using sun_vanishes_found by (simp add: absurd_phrases_def)
    qed
  qed
  then have "absurd_phrases ! i = sun_vanishes" by (simp add: absurd_phrases_def)
  with i(4) h show ?thesis by simp
qed

section \<open>Heuristic features\<close>

lemma count_full_stop:
  "count_list s full_stop = length (filter (\<lambda>c. c = full_stop) s)"
  by (induction s) auto

text \<open>
  C8. In the dict returned by \<open>extract_text_features\<close> the four flags are floats equal
  to 0 or to 1, \<open>length\<close> is the number of characters of the text, and \<open>sentences\<close> is
  the number of full stops (U+3002) in the text plus one, which is at least 1.
\<close>

theorem extract_text_features_fields:
  "\<exists>reliable is_absurd urgent exaggeration.
     map_of (extract_text_features text) ''reliable'' = Some (PyFloat reliable) \<and>
     (reliable = 0 \<or> reliable = 1) \<and>
     map_of (extract_text_features text) ''is_absurd'' = Some (PyFloat is_absurd) \<and>
     (is_absurd = 0 \<or> is_absurd = 1) \<and>
     map_of (extract_text_features text) ''urgent'' = Some (PyFloat urgent) \<and>
     (urgent = 0 \<or> urgent = 1) \<and>
     map_of (extract_text_features text) ''exaggeration'' = Some (PyFloat exaggeration) \<and>
     (exaggeration = 0 \<or> exaggeration = 1) \<and>
     map_of (extract_text_features text) ''length'' = Some (PyInt (int (length text))) \<and>
     map_of (extract_text_features text) ''sentences'' =
       Some (PyInt (int (length (filter (\<lambda>c. c = full_stop) text)) + 1)) \<and>
     1 \<le> int (length (filter (\<lambda>c. c = full_stop) text)) + 1"
  by (simp add: extract_text_features_def count_full_stop)

lemma is_absurd_iff:
  "map_of (extract_text_features text) ''is_absurd'' = Some (PyFloat 1) \<longleftrightarrow>
     (\<exists>phrase \<in> set extract_absurd_phrases. substr_in phrase text)"
  by (simp add: extract_text_features_def list_ex_iff)

text \<open>
  C9. The four phrases of the \<open>is_absurd\<close> feature are a proper subset of the five
  phrases of the gate: whenever the feature is 1 the gate fires, and on the text that
  consists of the fifth phrase alone the gate fires while the feature is 0.
\<close>

theorem gate_list_strictly_larger:
  "set extract_absurd_phrases \<subset> set absurd_phrases \<and>
   (map_of (extract_text_features text) ''is_absurd'' = Some (PyFloat 1) \<longrightarrow>
      fst (absurd_content_detector text)) \<and>
   fst (absurd_content_detector time_travel) \<and>
   map_of (extract_text_features time_travel) ''is_absurd'' = Some (PyFloat 0)"
proof -
  have sub: "set extract_absurd_phrases \<subseteq> set absurd_phrases"
    by (auto simp: extract_absurd_phrases_def absurd_phrases_def)
  have "time_travel \<in> set absurd_phrases" by (simp add: absurd_phrases_def)
  moreover have "time_travel \<notin> set extract_absurd_phrases"
    by (simp add: extract_absurd_phrases_def phrase_defs)
  ultimately have strict: "set extract_absurd_phrases \<subset> set absurd_phrases"
    using sub by blast
  have imp: "map_of (extract_text_features text) ''is_absurd'' = Some (PyFloat 1) \<longrightarrow>
      fst (absurd_content_detector text)"
    unfolding is_absurd_iff detector_fires_iff using sub by blast
  have g: "fst (absurd_content_detector time_travel)"
    by (simp add: absurd_content_detector_def absurd_phrases_def phrase_defs)
  have e: "map_of (extract_text_features time_travel) ''is_absurd'' = Some (PyFloat 0)"
    by (simp add: extract_text_features_def extract_absurd_phrases_def phrase_defs)
  from strict imp g e show ?thesis by blast
qed

text \<open>An instance: the first phrase sets the feature and fires the gate.\<close>

theorem gate_list_strictly_larger_witness:
  "map_of (extract_text_features moon_explodes) ''is_absurd'' = Some (PyFloat 1) \<and>
   fst (absurd_content_detector moon_explodes)"
proof -
  have h: "map_of (extract_text_features moon_explodes) ''is_absurd'' = Some (PyFloat 1)"
    by (simp add: extract_text_features_def extract_absurd_phrases_def phrase_defs)
  with gate_list_strictly_larger [of moon_explodes] show ?thesis by blast
qed

section \<open>Length of the feature vector\<close>

lemma sorted_keys:
  "sort (map fst (extract_text_features text)) =
     [''exaggeration'', ''is_absurd'', ''length'', ''reliable'', ''sentences'', ''urgent'']"
  unfolding extract_text_features_def list.map fst_conv by code_simp

lemma adv_vector_length:
  "\<exists>adv. adv_vector (extract_text_features text) = Some adv \<and> length adv = 6"
  unfolding adv_vector_def sorted_keys by (simp add: extract_text_features_def)

lemma generate_features_length:
  "tfidf models (preprocess_text jieba_cut text) = Some v \<Longrightarrow>
   length (generate_features jieba_cut models text) = min (length v + 6) (expected_dim models)"
proof -
  assume v: "tfidf models (preprocess_text jieba_cut text) = Some v"
  obtain adv where adv: "adv_vector (extract_text_features text) = Some adv" "length adv = 6"
    using adv_vector_length by blast
  show ?thesis using v adv by (simp add: generate_features_def)
qed

text \<open>
  C2. The slice \<open>features[:expected_dim]\<close> shortens a long vector and leaves a short one
  as it is: with a vectorizer of three terms and \<open>expected_dim = 204\<close> the result has
  nine entries, not 204.
\<close>

theorem short_vector_not_padded:
  "length (generate_features each_char three_term_models [72, 105]) = 9 \<and>
   expected_dim three_term_models = 204"
proof -
  have "tfidf three_term_models (preprocess_text each_char [72, 105]) = Some [0, 0, 0]"
    by (simp add: three_term_models_def)
  from generate_features_length [OF this] show ?thesis
    by (simp add: three_term_models_def)
qed

section \<open>Confidence\<close>

text \<open>
  C10. \<open>calculate_confidence\<close> returns the fake probability it was given; only the
  first component can change.
\<close>

theorem fake_probability_unchanged:
  "snd (calculate_confidence (real_prob, fake_prob) text) = fake_prob"
  by (simp add: calculate_confidence_def)

text \<open>
  The pair returned by \<open>calculate_confidence\<close> itself need not sum to one: for the even
  pair and a text naming Xinhua it is (0.85, 0.5).
\<close>

theorem calculate_confidence_sum_counterexample:
  "prob_pair (1 / 2, 1 / 2) \<and>
   fst (calculate_confidence (1 / 2, 1 / 2) xinhua) +
   snd (calculate_confidence (1 / 2, 1 / 2) xinhua) = 27 / 20 \<and>
   fst (calculate_confidence (1 / 2, 1 / 2) xinhua) +
   snd (calculate_confidence (1 / 2, 1 / 2) xinhua) \<noteq> 1"
  by (simp add: calculate_confidence_def xinhua_def prob_pair_def)

lemma calculate_confidence_nonneg:
  assumes "0 \<le> r" and "0 \<le> f" and "0 < r + f"
  shows "0 \<le> fst (calculate_confidence (r, f) s) \<and> 0 \<le> snd (calculate_confidence (r, f) s) \<and>
         0 < fst (calculate_confidence (r, f) s) + snd (calculate_confidence (r, f) s)"
proof (cases "substr_in xinhua s \<or> substr_in peoples_daily s")
  case True
  then have eq: "calculate_confidence (r, f) s = (min (r * 1.7) 0.97, f)"
    by (simp add: calculate_confidence_def)
  have m0: "0 \<le> min (r * 1.7) 0.97" using assms(1) by simp
  have pos: "0 < min (r * 1.7) 0.97 + f"
  proof (cases "r = 0")
    case True
    then show ?thesis using assms by simp
  next
    case False
    then have "0 < r" using assms(1) by simp
    then have "0 < min (r * 1.7) 0.97" by simp
    then show ?thesis using assms(2) by linarith
  qed
  show ?thesis using m0 pos assms(2) by (simp add: eq)
next
  case False
  then have "calculate_confidence (r, f) s = (r, f)"
    by (simp add: calculate_confidence_def)
  then show ?thesis using assms by simp
qed

lemma renormalize_sum:
  assumes "0 \<le> a" and "0 \<le> b" and "0 < a + b"
  shows "\<exists>r f. renormalize (a, b) = Some (r, f) \<and> r + f = 1 \<and>
               0 \<le> r \<and> r \<le> 1 \<and> 0 \<le> f \<and> f \<le> 1"
proof -
  let ?t = "a + b"
  have ne: "?t \<noteq> 0" using assms(3) by simp
  have eq: "renormalize (a, b) = Some (a / ?t, b / ?t)"
    using ne by (simp add: renormalize_def Let_def)
  have s: "a / ?t + b / ?t = 1"
    using ne by (simp add: add_divide_distrib [symmetric])
  have r0: "0 \<le> a / ?t" using assms by simp
  have f0: "0 \<le> b / ?t" using assms by simp
  have r1: "a / ?t \<le> 1" using s f0 by linarith
  have f1: "b / ?t \<le> 1" using s r0 by linarith
  show ?thesis using eq s r0 f0 r1 f1 by blast
qed

lemma renormalize_after_confidence:
  assumes "prob_pair probabilities"
  shows "\<exists>real_prob fake_prob.
           renormalize (calculate_confidence probabilities rawText) = Some (real_prob, fake_prob) \<and>
           real_prob + fake_prob = 1 \<and>
           0 \<le> real_prob \<and> real_prob \<le> 1 \<and> 0 \<le> fake_prob \<and> fake_prob \<le> 1"
proof -
  obtain r f where p: "probabilities = (r, f)" by (cases probabilities)
  have h: "0 \<le> r" "0 \<le> f" "0 < r + f" using assms by (simp_all add: p prob_pair_def)
  obtain a b where c: "calculate_confidence (r, f) rawText = (a, b)"
    by (cases "calculate_confidence (r, f) rawText")
  have "0 \<le> a \<and> 0 \<le> b \<and> 0 < a + b"
    using calculate_confidence_nonneg [OF h, of rawText] by (simp add: c)
  then show ?thesis using renormalize_sum [of a b] by (simp add: p c)
qed

text \<open>
  C3 (amended). \<open>calculate_confidence\<close> does not renormalize; the division by the sum
  is the next step of \<open>main_application\<close>. For every probability pair and every text,
  that step is defined on the result of \<open>calculate_confidence\<close> and yields two numbers
  in [0, 1] whose sum is 1.
\<close>

theorem renormalized_confidence_is_pair:
  assumes "prob_pair probabilities"
  shows "\<exists>real_prob fake_prob.
           renormalize (calculate_confidence probabilities rawText) = Some (real_prob, fake_prob) \<and>
           real_prob + fake_prob = 1 \<and>
           0 \<le> real_prob \<and> real_prob \<le> 1 \<and> 0 \<le> fake_prob \<and> fake_prob \<le> 1"
  using assms by (rule renormalize_after_confidence)

text \<open>An instance: the even pair and a text naming Xinhua give (17/27, 10/27).\<close>

theorem renormalized_confidence_is_pair_witness:
  "prob_pair (1 / 2, 1 / 2) \<and>
   renormalize (calculate_confidence (1 / 2, 1 / 2) xinhua) = Some (17 / 27, 10 / 27)"
proof -
  have h: "prob_pair (1 / 2, 1 / 2)" by (simp add: prob_pair_def)
  have "renormalize (calculate_confidence (1 / 2, 1 / 2) xinhua) = Some (17 / 27, 10 / 27)"
    using renormalized_confidence_is_pair [OF h, of xinhua]
    by (simp add: calculate_confidence_def renormalize_def xinhua_def)
  with h show ?thesis by blast
qed

text \<open>
  Above the ceiling the boost lowers the probability: 0.99 becomes 0.97 for a text
  naming Xinhua.
\<close>

theorem boost_lowers_high_probability_counterexample:
  "substr_in xinhua xinhua \<and> prob_pair (99 / 100, 1 / 100) \<and>
   fst (calculate_confidence (99 / 100, 1 / 100) xinhua) < 99 / 100"
  by (simp add: calculate_confidence_def xinhua_def prob_pair_def)

text \<open>
  C4 (amended). For a text that contains the name of Xinhua or of People's Daily, the
  real probability returned by \<open>calculate_confidence\<close> is at most 0.97, and it is at
  least the given one whenever the given one lies between 0 and 0.97.
\<close>

theorem boost_capped_and_monotone_below_cap:
  assumes "substr_in xinhua s \<or> substr_in peoples_daily s"
  shows "fst (calculate_confidence (real_prob, fake_prob) s) \<le> 0.97 \<and>
         (0 \<le> real_prob \<and> real_prob \<le> 0.97 \<longrightarrow>
            real_prob \<le> fst (calculate_confidence (real_prob, fake_prob) s))"
proof -
  have eq: "fst (calculate_confidence (real_prob, fake_prob) s) = min (real_prob * 1.7) 0.97"
    using assms by (simp add: calculate_confidence_def)
  have "0 \<le> real_prob \<Longrightarrow> real_prob \<le> real_prob * 1.7" by simp
  then show ?thesis unfolding eq by auto
qed

text \<open>An instance: 0.5 becomes 0.85, between 0.5 and 0.97.\<close>

theorem boost_capped_and_monotone_below_cap_witness:
  "(substr_in xinhua xinhua \<or> substr_in peoples_daily xinhua) \<and>
   fst (calculate_confidence (1 / 2, 1 / 2) xinhua) \<le> 0.97 \<and>
   1 / 2 \<le> fst (calculate_confidence (1 / 2, 1 / 2) xinhua)"
proof -
  have h: "substr_in xinhua xinhua \<or> substr_in peoples_daily xinhua"
    by (simp add: xinhua_def)
  from boost_capped_and_monotone_below_cap [OF h, of "1 / 2" "1 / 2"] h
  show ?thesis by simp
qed

text \<open>
  The word "official" sets the \<open>reliable\<close> feature and leaves the probabilities as
  they are.
\<close>

theorem official_not_boosted_counterexample:
  "map_of (extract_text_features official) ''reliable'' = Some (PyFloat 1) \<and>
   calculate_confidence (1 / 2, 1 / 2) official = (1 / 2, 1 / 2)"
  by (simp add: extract_text_features_def calculate_confidence_def phrase_defs)

text \<open>
  C5 (amended). \<open>calculate_confidence\<close> replaces the real probability by the smaller of
  1.7 times it and 0.97 exactly for the texts that contain the name of Xinhua or of
  People's Daily. The \<open>reliable\<close> feature is 1 exactly for these texts and those
  that contain the word "official".
\<close>

theorem boost_iff_news_agency:
  "((\<forall>real_prob fake_prob. calculate_confidence (real_prob, fake_prob) s =
        (min (real_prob * 1.7) 0.97, fake_prob))
      \<longleftrightarrow> substr_in xinhua s \<or> substr_in peoples_daily s) \<and>
   (map_of (extract_text_features s) ''reliable'' = Some (PyFloat 1)
      \<longleftrightarrow> substr_in xinhua s \<or> substr_in peoples_daily s \<or> substr_in official s)"
proof -
  have a: "(\<forall>real_prob fake_prob. calculate_confidence (real_prob, fake_prob) s =
        (min (real_prob * 1.7) 0.97, fake_prob))
      \<longleftrightarrow> substr_in xinhua s \<or> substr_in peoples_daily s"
  proof
    assume all: "\<forall>real_prob fake_prob. calculate_confidence (real_prob, fake_prob) s =
        (min (real_prob * 1.7) 0.97, fake_prob)"
    show "substr_in xinhua s \<or> substr_in peoples_daily s"
    proof (rule ccontr)
      assume "\<not> (substr_in xinhua s \<or> substr_in peoples_daily s)"
      then have "calculate_confidence (1 / 2, 0) s = (1 / 2, 0)"
        by (simp add: calculate_confidence_def)
      moreover have "calculate_confidence (1 / 2, 0) s = (min ((1 / 2) * 1.7) 0.97, 0)"
        using all by blast
      ultimately show False by simp
    qed
  next
    assume "substr_in xinhua s \<or> substr_in peoples_daily s"
    then show "\<forall>real_prob fake_prob. calculate_confidence (real_prob, fake_prob) s =
        (min (real_prob * 1.7) 0.97, fake_prob)"
      by (simp add: calculate_confidence_def)
  qed
  have b: "map_of (extract_text_features s) ''reliable'' = Some (PyFloat 1)
      \<longleftrightarrow> substr_in xinhua s \<or> substr_in peoples_daily s \<or> substr_in official s"
    by (simp add: extract_text_features_def)
  from a b show ?thesis by blast
qed

text \<open>An instance: a text naming People's Daily is boosted and is reliable.\<close>

theorem boost_iff_news_agency_witness:
  "calculate_confidence (1 / 2, 1 / 2) peoples_daily = (17 / 20, 1 / 2) \<and>
   map_of (extract_text_features peoples_daily) ''reliable'' = Some (PyFloat 1)"
proof -
  have h: "substr_in xinhua peoples_daily \<or> substr_in peoples_daily peoples_daily"
    by (simp add: phrase_defs)
  have "calculate_confidence (1 / 2, 1 / 2) peoples_daily = (min ((1 / 2) * 1.7) 0.97, 1 / 2)"
    using boost_iff_news_agency [of peoples_daily] h by blast
  moreover have "map_of (extract_text_features peoples_daily) ''reliable'' = Some (PyFloat 1)"
    using boost_iff_news_agency [of peoples_daily] h by blast
  ultimately show ?thesis by simp
qed

section \<open>A vectorizer that raises\<close>

text \<open>
  C7. When the vectorizer raises on the normalized text, \<open>generate_features\<close> returns
  \<open>expected_dim\<close> zeros. The run then goes on with that vector: for a text that is not
  blank, with a classifier that answers on the zero vector with a label and a
  probability pair, it ends in a verdict and not in the failure report.
\<close>

theorem vectorizer_failure_absorbed:
  assumes "tfidf models (preprocess_text jieba_cut rawText) = None"
  shows "generate_features jieba_cut models rawText = replicate (expected_dim models) 0 \<and>
         (strip rawText \<noteq> [] \<and>
          predict models (replicate (expected_dim models) 0) = Some label \<and>
          predict_proba models (replicate (expected_dim models) 0) = Some probabilities \<and>
          prob_pair probabilities
          \<longrightarrow> (\<exists>v. main_application jieba_cut models rawText = Inr v))"
proof -
  have g: "generate_features jieba_cut models rawText = replicate (expected_dim models) 0"
    using assms by (simp add: generate_features_def zeros_def)
  have "\<exists>v. main_application jieba_cut models rawText = Inr v"
    if nb: "strip rawText \<noteq> []"
      and l: "predict models (replicate (expected_dim models) 0) = Some label"
      and p: "predict_proba models (replicate (expected_dim models) 0) = Some probabilities"
      and pp: "prob_pair probabilities"
  proof (cases "absurd_content_detector rawText")
    case (Pair is_absurd reason)
    show ?thesis
    proof (cases is_absurd)
      case True
      then show ?thesis using nb Pair by (simp add: main_application_def)
    next
      case False
      obtain r f where rn: "renormalize (calculate_confidence probabilities rawText) = Some (r, f)"
        using renormalize_after_confidence [OF pp] by blast
      show ?thesis using nb Pair False g l p rn by (simp add: main_application_def)
    qed
  qed
  with g show ?thesis by blast
qed

text \<open>
  An instance: with a vectorizer that always raises, a text naming Xinhua is reported
  as real with confidence 17/27.
\<close>

theorem vectorizer_failure_absorbed_witness:
  "tfidf xinhua_models (preprocess_text each_char xinhua) = None \<and>
   generate_features each_char xinhua_models xinhua = replicate 204 0 \<and>
   main_application each_char xinhua_models xinhua = Inr (Real (17 / 27))"
proof -
  have h: "tfidf xinhua_models (preprocess_text each_char xinhua) = None"
    by (simp add: xinhua_models_def)
  have g: "generate_features each_char xinhua_models xinhua = replicate 204 0"
    using vectorizer_failure_absorbed [OF h] by (simp add: xinhua_models_def)
  have nb: "strip xinhua \<noteq> []"
    by (simp add: strip_Nil_iff xinhua_def isspace_def)
  have d: "absurd_content_detector xinhua = (False, [])"
    by (simp add: absurd_content_detector_def absurd_phrases_def phrase_defs)
  have c: "renormalize (calculate_confidence (1 / 2, 1 / 2) xinhua) = Some (17 / 27, 10 / 27)"
    by (simp add: calculate_confidence_def renormalize_def xinhua_def)
  have "main_application each_char xinhua_models xinhua = Inr (Real (17 / 27))"
    unfolding main_application_def using nb d c
    by (simp add: g) (simp add: xinhua_models_def)
  with h g show ?thesis by blast
qed

section \<open>Normalizing twice\<close>

lemma keep_char_not_space: "keep_char c \<Longrightarrow> \<not> isspace c"
  by (auto simp: keep_char_def isspace_def)

lemma isspace_32: "isspace 32"
  by (simp add: isspace_def)

lemma tidy_space: "tidy_char c \<Longrightarrow> isspace c \<Longrightarrow> c = 32"
  using keep_char_not_space by (auto simp: tidy_char_def)

lemma sub_non_word_id: "\<forall>c \<in> set s. keep_char c \<or> c = 32 \<Longrightarrow> sub_non_word s = s"
  unfolding sub_non_word_def by (rule map_idI) auto

lemma sub_non_word_chars: "c \<in> set (sub_non_word s) \<Longrightarrow> keep_char c \<or> c = 32"
  by (auto simp: sub_non_word_def)

lemma sub_spaces_chars: "c \<in> set (sub_spaces s) \<Longrightarrow> c \<in> set s \<or> c = 32"
proof (induction s rule: sub_spaces.induct)
  case 1
  then show ?case by simp
next
  case (2 d ds)
  show ?case
  proof (cases "isspace d")
    case True
    then have "c = 32 \<or> c \<in> set (sub_spaces (dropWhile isspace ds))"
      using "2.prems" by simp
    then show ?thesis using "2.IH"(1) [OF True] set_dropWhileD by fastforce
  next
    case False
    then have "c = d \<or> c \<in> set (sub_spaces ds)" using "2.prems" by simp
    then show ?thesis using "2.IH"(2) [OF False] by auto
  qed
qed

lemma no_double_Cons:
  "no_double (c # u) \<longleftrightarrow> (u = [] \<or> \<not> (isspace c \<and> isspace (hd u))) \<and> no_double u"
  by (cases u) auto

lemma sub_spaces_Nil_iff: "sub_spaces s = [] \<longleftrightarrow> s = []"
  by (cases s) auto

lemma sub_spaces_hd: "s \<noteq> [] \<Longrightarrow> \<not> isspace (hd s) \<Longrightarrow> hd (sub_spaces s) = hd s"
  by (cases s) auto

lemma no_double_sub_spaces: "no_double (sub_spaces s)"
proof (induction s rule: sub_spaces.induct)
  case 1
  show ?case by simp
next
  case (2 c cs)
  show ?case
  proof (cases "isspace c")
    case True
    let ?d = "dropWhile isspace cs"
    have ih: "no_double (sub_spaces ?d)" using "2.IH"(1) [OF True] .
    have "sub_spaces ?d = [] \<or> \<not> isspace (hd (sub_spaces ?d))"
    proof (cases "?d = []")
      case True
      then have "sub_spaces ?d = []" by (simp only: sub_spaces.simps)
      then show ?thesis by blast
    next
      case False
      then have "\<not> isspace (hd ?d)" by (rule hd_dropWhile)
      then show ?thesis using False by (simp add: sub_spaces_hd)
    qed
    then show ?thesis using True ih by (simp add: no_double_Cons)
  next
    case False
    then show ?thesis using "2.IH"(2) [OF False] by (simp add: no_double_Cons)
  qed
qed

lemma sub_spaces_id:
  "no_double s \<Longrightarrow> \<forall>c \<in> set s. isspace c \<longrightarrow> c = 32 \<Longrightarrow> sub_spaces s = s"
proof (induction s)
  case Nil
  show ?case by simp
next
  case (Cons c cs)
  have nd: "no_double cs" and adj: "cs = [] \<or> \<not> (isspace c \<and> isspace (hd cs))"
    using Cons.prems(1) by (simp_all add: no_double_Cons)
  have ih: "sub_spaces cs = cs" using Cons.IH nd Cons.prems(2) by simp
  show ?case
  proof (cases "isspace c")
    case True
    then have c: "c = 32" using Cons.prems(2) by simp
    have "dropWhile isspace cs = cs" using adj True by (cases cs) auto
    then show ?thesis using True c ih by simp
  next
    case False
    then show ?thesis using ih by simp
  qed
qed

lemma isspace_lower_char: "isspace (lower_char c) \<longleftrightarrow> isspace c"
  by (auto simp: lower_char_def isspace_def)

lemma no_double_lower: "no_double (lower s) \<longleftrightarrow> no_double s"
  by (induction s rule: no_double.induct) (simp_all add: lower_def isspace_lower_char)

lemma tidy_lower_char: "keep_char c \<or> c = 32 \<Longrightarrow> tidy_char (lower_char c)"
  by (auto simp: tidy_char_def keep_char_def lower_char_def)

lemma lower_id: "\<forall>c \<in> set s. tidy_char c \<Longrightarrow> lower s = s"
  unfolding lower_def by (rule map_idI) (auto simp: tidy_char_def lower_char_def)

lemma no_double_append: "no_double (a @ b) \<Longrightarrow> no_double a \<and> no_double b"
proof (induction a)
  case Nil
  then show ?case by simp
next
  case (Cons c a)
  then have "no_double (a @ b)" by (simp add: no_double_Cons)
  then have ih: "no_double a \<and> no_double b" using Cons.IH by blast
  have "a = [] \<or> \<not> (isspace c \<and> isspace (hd a))"
    using Cons.prems by (cases a) (simp_all add: no_double_Cons)
  then show ?case using ih by (simp add: no_double_Cons)
qed

lemma no_double_strip: "no_double s \<Longrightarrow> no_double (strip s)"
proof -
  assume nd: "no_double s"
  obtain a b where "s = a @ strip s @ b" using strip_infix by blast
  then have "no_double (a @ strip s @ b)" using nd by simp
  then have "no_double (strip s @ b)" using no_double_append by blast
  then show ?thesis using no_double_append by blast
qed

lemma cleaned_clean_text: "cleaned (clean_text x)"
proof -
  let ?a = "sub_non_word x"
  let ?b = "sub_spaces ?a"
  let ?c = "lower ?b"
  have b_chars: "\<forall>c \<in> set ?b. keep_char c \<or> c = 32"
    using sub_spaces_chars sub_non_word_chars by blast
  have c_chars: "\<forall>c \<in> set ?c. tidy_char c"
    using b_chars tidy_lower_char by (auto simp: lower_def)
  have c_nd: "no_double ?c" by (simp add: no_double_lower no_double_sub_spaces)
  have 1: "\<forall>c \<in> set (strip ?c). tidy_char c" using c_chars set_strip by blast
  have 2: "no_double (strip ?c)" using c_nd by (rule no_double_strip)
  show ?thesis unfolding cleaned_def clean_text_def using 1 2 strip_ends by blast
qed

lemma clean_text_id: "cleaned s \<Longrightarrow> clean_text s = s"
proof -
  assume c: "cleaned s"
  have t: "\<forall>c \<in> set s. tidy_char c" and nd: "no_double s"
    and e: "s = [] \<or> (\<not> isspace (hd s) \<and> \<not> isspace (last s))"
    using c by (simp_all add: cleaned_def)
  have 1: "sub_non_word s = s"
    by (rule sub_non_word_id) (use t in \<open>auto simp: tidy_char_def\<close>)
  have 2: "sub_spaces s = s"
    by (rule sub_spaces_id [OF nd]) (use t tidy_space in blast)
  have 3: "lower s = s" using t by (rule lower_id)
  have 4: "strip s = s" using e by (rule strip_id)
  show ?thesis by (simp add: clean_text_def 1 2 3 4)
qed

lemma clean_text_idem: "clean_text (clean_text x) = clean_text x"
  by (rule clean_text_id) (rule cleaned_clean_text)

text \<open>
  With a tokenizer that returns a letter and an ideograph as two tokens and a space as
  a token, the second pass puts three spaces where the first pass put one.
\<close>

theorem each_char_not_idempotent:
  "preprocess_text each_char [97, 20013] = [97, 32, 20013] \<and>
   preprocess_text each_char (preprocess_text each_char [97, 20013]) = [97, 32, 32, 32, 20013] \<and>
   preprocess_text each_char (preprocess_text each_char [97, 20013]) \<noteq>
     preprocess_text each_char [97, 20013]"
  by (simp add: preprocess_text_def each_char_def clean_text_def sub_non_word_def keep_char_def
      isspace_def lower_def lower_char_def strip_def)

lemma clean_hi_you:
  "clean_text [72, 105, 33, 32, 32, 89, 111, 117, 32] = [104, 105, 32, 121, 111, 117]"
  by (simp add: clean_text_def sub_non_word_def keep_char_def isspace_def lower_def
      lower_char_def strip_def)

lemma tokens_hi_you:
  "join_space (runs_and_spaces [104, 105, 32, 121, 111, 117]) =
     [104, 105, 32, 32, 32, 121, 111, 117]"
  by simp

lemma clean_hi_3_you:
  "clean_text [104, 105, 32, 32, 32, 121, 111, 117] = [104, 105, 32, 121, 111, 117]"
  by (simp add: clean_text_def sub_non_word_def keep_char_def isspace_def lower_def
      lower_char_def strip_def)

text \<open>
  C6 (amended). The steps of \<open>preprocess_text\<close> before the tokenizer are idempotent, and
  \<open>preprocess_text\<close> is idempotent at every text \<open>x\<close> for which cleaning the
  space-joined tokens of the cleaned \<open>x\<close> gives the cleaned \<open>x\<close> back.
\<close>

theorem preprocess_text_idempotent_when_cleaning_restores:
  "clean_text (clean_text x) = clean_text x \<and>
   (clean_text (join_space (jieba_cut (clean_text x))) = clean_text x \<longrightarrow>
      preprocess_text jieba_cut (preprocess_text jieba_cut x) = preprocess_text jieba_cut x)"
proof -
  have idem: "clean_text (clean_text x) = clean_text x" by (rule clean_text_idem)
  have "preprocess_text jieba_cut (preprocess_text jieba_cut x) = preprocess_text jieba_cut x"
    if j: "clean_text (join_space (jieba_cut (clean_text x))) = clean_text x"
  proof (cases "x = []")
    case True
    then show ?thesis by (simp add: preprocess_text_def)
  next
    case False
    then have p: "preprocess_text jieba_cut x = join_space (jieba_cut (clean_text x))"
      by (simp add: preprocess_text_def)
    show ?thesis
    proof (cases "join_space (jieba_cut (clean_text x)) = []")
      case True
      then have "preprocess_text jieba_cut x = []" using p by simp
      then show ?thesis by (simp add: preprocess_text_def)
    next
      case False
      then have "preprocess_text jieba_cut (join_space (jieba_cut (clean_text x))) =
          join_space (jieba_cut (clean_text (join_space (jieba_cut (clean_text x)))))"
        by (simp add: preprocess_text_def)
      then show ?thesis using j p by simp
    qed
  qed
  with idem show ?thesis by blast
qed

text \<open>
  An instance with \<open>runs_and_spaces\<close> as the tokenizer, on the text \<open>Hi!  You \<close>: the
  cleaned text is \<open>hi you\<close>, its tokens are \<open>hi\<close>, a space and \<open>you\<close>, and both passes
  return \<open>hi   you\<close> with three spaces.
\<close>

theorem preprocess_text_idempotent_when_cleaning_restores_witness:
  "clean_text (join_space (runs_and_spaces (clean_text [72, 105, 33, 32, 32, 89, 111, 117, 32]))) =
     clean_text [72, 105, 33, 32, 32, 89, 111, 117, 32] \<and>
   preprocess_text runs_and_spaces [72, 105, 33, 32, 32, 89, 111, 117, 32] =
     [104, 105, 32, 32, 32, 121, 111, 117] \<and>
   preprocess_text runs_and_spaces
     (preprocess_text runs_and_spaces [72, 105, 33, 32, 32, 89, 111, 117, 32]) =
     preprocess_text runs_and_spaces [72, 105, 33, 32, 32, 89, 111, 117, 32]"
proof -
  have h: "clean_text (join_space (runs_and_spaces
             (clean_text [72, 105, 33, 32, 32, 89, 111, 117, 32]))) =
           clean_text [72, 105, 33, 32, 32, 89, 111, 117, 32]"
    by (simp only: clean_hi_you tokens_hi_you clean_hi_3_you)
  have v: "preprocess_text runs_and_spaces [72, 105, 33, 32, 32, 89, 111, 117, 32] =
     [104, 105, 32, 32, 32, 121, 111, 117]"
    unfolding preprocess_text_def by (simp only: clean_hi_you tokens_hi_you) simp
  from preprocess_text_idempotent_when_cleaning_restores
    [of "[72, 105, 33, 32, 32, 89, 111, 117, 32]" runs_and_spaces] h v
  show ?thesis by blast
qed

end
